theory Spec2Isabelle
  imports Main "HOL-Library.Multiset"
begin

section \<open>AzureHound: the collection service of cmd/start.go\<close>

subsection \<open>Ingest: uploading the batches of one job\<close>

text \<open>
  \<open>bheClient.Do(req)\<close> returns either an error (no response: a transport failure) or a
  response, of which \<open>ingest\<close> reads the status code only.
\<close>

datatype response = TransportError | StatusCode nat

abbreviation StatusAccepted :: nat where "StatusAccepted \<equiv> 202"
abbreviation StatusServiceUnavailable :: nat where "StatusServiceUnavailable \<equiv> 503"
abbreviation StatusGatewayTimeout :: nat where "StatusGatewayTimeout \<equiv> 504"

text \<open>
  The two collaborators of \<open>ingest\<close>. \<open>rest.NewRequest\<close> lives in another package: all
  \<open>ingest\<close> looks at is whether it returned an error for the batch. The answers of the
  server are an arbitrary sequence: \<open>Do n\<close> is the outcome of the \<open>n\<close>-th call of
  \<open>bheClient.Do\<close> of the pass, counted from 0.
\<close>

record 'b bhe =
  NewRequest :: "'b \<Rightarrow> bool"
  Do :: "nat \<Rightarrow> response"

text \<open>What one pass does that can be observed from outside, in program order.\<close>

datatype log_error = UnrecoverableErr | ErrExceededRetryLimit

datatype event =
  Request response \<comment> \<open>one call of \<open>bheClient.Do\<close>, with what came back\<close>
  | Sleep nat \<comment> \<open>\<open>time.Sleep\<close>, in seconds\<close>
  | LogError log_error

definition maxRetries :: nat where
  "maxRetries = 3"

text \<open>
  \<open>math.Pow(5, float64(retry+1))\<close> converted to a \<open>time.Duration\<close> and multiplied by
  \<open>time.Second\<close>: for the three values \<open>retry\<close> takes the power is an exact float
  (5, 25, 125), so the sleep is this number of seconds.
\<close>

definition backoff :: "nat \<Rightarrow> nat" where
  "backoff retry = 5 ^ (retry + 1)"

text \<open>How the inner \<open>for\<close> loop is left: by \<open>return true\<close>, or by running to its end.\<close>

datatype exit = ReturnTrue | LoopEnd

text \<open>
  The state the inner loop threads: \<open>hasErrors\<close>, and the number of requests sent so
  far in the pass. The events of the loop are returned in order.
\<close>

type_synonym attempt_result = "exit \<times> bool \<times> nat \<times> event list"

definition emit :: "event list \<Rightarrow> attempt_result \<Rightarrow> attempt_result" where
  "emit es r = (case r of (x, h, n, es') \<Rightarrow> (x, h, n, es @ es'))"

text \<open>
  The loop \<open>for retry := 0; retry < maxRetries; retry++\<close> of \<open>ingest\<close>, from the value
  \<open>retry\<close> on. A response with status 202 matches none of the three branches: the body
  ends, \<open>retry\<close> is incremented and the loop goes on.
\<close>

function attempts :: "(nat \<Rightarrow> response) \<Rightarrow> nat \<Rightarrow> bool \<Rightarrow> nat \<Rightarrow> attempt_result" where
  "attempts client_do retry hasErrors sent =
     (if retry < maxRetries then
        (case client_do sent of
           TransportError \<Rightarrow>
             (ReturnTrue, hasErrors, sent + 1, [Request TransportError, LogError UnrecoverableErr])
         | StatusCode code \<Rightarrow>
             if code = StatusGatewayTimeout \<or> code = StatusServiceUnavailable then
               if retry = maxRetries - 1 then
                 emit [Request (StatusCode code), Sleep (backoff retry), LogError ErrExceededRetryLimit]
                   (attempts client_do (retry + 1) True (sent + 1))
               else
                 emit [Request (StatusCode code), Sleep (backoff retry)]
                   (attempts client_do (retry + 1) hasErrors (sent + 1))
             else if code \<noteq> StatusAccepted then
               (ReturnTrue, hasErrors, sent + 1, [Request (StatusCode code), LogError UnrecoverableErr])
             else
               emit [Request (StatusCode code)]
                 (attempts client_do (retry + 1) hasErrors (sent + 1)))
      else (LoopEnd, hasErrors, sent, []))"
  by pat_completeness auto
termination
  by (relation "measure (\<lambda>(client_do, retry, hasErrors, sent). maxRetries - retry)") auto

declare attempts.simps [simp del]

text \<open>
  The outer loop \<open>for data := range pipeline.OrDone(ctx.Done(), in)\<close> over the batches the
  channel delivers. The result is the returned flag and, for each batch the loop took up, the
  batch with its events.
\<close>

fun ingest_loop :: "'b bhe \<Rightarrow> 'b list \<Rightarrow> bool \<Rightarrow> nat \<Rightarrow> bool \<times> ('b \<times> event list) list" where
  "ingest_loop env [] hasErrors sent = (hasErrors, [])"
| "ingest_loop env (data # rest) hasErrors sent =
     (if \<not> NewRequest env data then (True, [(data, [LogError UnrecoverableErr])])
      else
        (case attempts (Do env) 0 hasErrors sent of
           (ReturnTrue, h, n, es) \<Rightarrow> (True, [(data, es)])
         | (LoopEnd, h, n, es) \<Rightarrow>
             (case ingest_loop env rest h n of (flag, logs) \<Rightarrow> (flag, (data, es) # logs))))"

definition ingest :: "'b bhe \<Rightarrow> 'b list \<Rightarrow> bool \<times> ('b \<times> event list) list" where
  "ingest env batches = ingest_loop env batches False 0"

text \<open>Classes of responses, and counting the requests of a pass.\<close>

definition transient :: "response \<Rightarrow> bool" where
  "transient r = (r = StatusCode StatusGatewayTimeout \<or> r = StatusCode StatusServiceUnavailable)"

definition fatal :: "response \<Rightarrow> bool" where
  "fatal r =
     (case r of
        TransportError \<Rightarrow> True
      | StatusCode code \<Rightarrow>
          code \<noteq> StatusGatewayTimeout \<and> code \<noteq> StatusServiceUnavailable \<and> code \<noteq> StatusAccepted)"

fun is_request :: "event \<Rightarrow> bool" where
  "is_request (Request r) = True"
| "is_request e = False"

definition requests :: "('b \<times> event list) list \<Rightarrow> nat" where
  "requests logs = length (filter is_request (concat (map snd logs)))"

definition stops_at :: "(nat \<Rightarrow> response) \<Rightarrow> nat \<Rightarrow> nat \<Rightarrow> attempt_result \<Rightarrow> bool" where
  "stops_at d k n r =
     (case r of (x, h, n', es) \<Rightarrow>
        n' = n + length (filter is_request es) \<and> n' \<le> Suc k \<and>
        (x = LoopEnd \<longrightarrow> n' \<le> k) \<and>
        (n' = Suc k \<longrightarrow> (\<exists>es0. es = es0 @ [Request (d k), LogError UnrecoverableErr])))"

subsection \<open>The service loop of \<open>start\<close>\<close>

text \<open>
  \<open>models.ClientTask\<close>, with the two fields \<open>start\<close> reads. A \<open>time.Time\<close> is an instant;
  \<open>Before\<close> and \<open>Equal\<close> compare instants.
\<close>

type_synonym time = int

record ClientTask =
  Id' :: int
  ExectionTime :: time

text \<open>
  Modelled from the spec: the declaration of \<open>models.JobStatus\<close> is outside cmd/start.go,
  which uses its constant \<open>JobStatusComplete\<close> only. The outcome enumeration of the
  specification has the two values \<open>Completed\<close> and \<open>CompletedWithErrors\<close>;
  \<open>JobStatusComplete\<close> is the first.
\<close>

datatype JobStatus = Completed | CompletedWithErrors

abbreviation JobStatusComplete :: JobStatus where
  "JobStatusComplete \<equiv> Completed"

text \<open>
  \<open>sort.Slice\<close> belongs to the Go library, whose documentation promises a sorted permutation
  and no stability. The model takes it as a parameter, applied to the comparison on elements.
\<close>

type_synonym sorter = "(ClientTask \<Rightarrow> ClientTask \<Rightarrow> bool) \<Rightarrow> ClientTask list \<Rightarrow> ClientTask list"

definition sorts :: "sorter \<Rightarrow> (ClientTask \<Rightarrow> ClientTask \<Rightarrow> bool) \<Rightarrow> ClientTask list \<Rightarrow> bool" where
  "sorts srt lt xs =
     (mset (srt lt xs) = mset xs \<and> sorted_wrt (\<lambda>a b. \<not> lt b a) (srt lt xs))"

text \<open>
  The tasks that have reached their execution time, in the order \<open>sort.Slice\<close> leaves them
  (lines 114 to 126).
\<close>

definition executableTasks :: "sorter \<Rightarrow> time \<Rightarrow> ClientTask list \<Rightarrow> ClientTask list" where
  "executableTasks srt now availableTasks =
     srt (\<lambda>a b. ExectionTime a < ExectionTime b)
       (filter (\<lambda>task. ExectionTime task < now \<or> ExectionTime task = now) availableTasks)"

definition completion_message :: "bool \<Rightarrow> string" where
  "completion_message hasIngestErr =
     (if hasIngestErr then ''Collection completed with errors during ingest''
      else ''Collection completed successfully'')"

text \<open>What the service does that its surroundings see: calls and log lines.\<close>

type_synonym error = string

datatype 'b io =
  GetAvailableTasks
  | StartTask int
  | Checkin
  | ListAll
  | Ingest "('b \<times> event list) list"
  | EndTask JobStatus string
  | LogInfo string
  | LogErr string

text \<open>
  Each idle tick dispatches the selection as a goroutine. A goroutine blocks in four places:
  in \<open>getAvailableTasks\<close>, in \<open>startTask\<close>, while the job runs (\<open>listAll\<close>,
  \<open>pipeline.Batch\<close>, \<open>ingest\<close>) and in \<open>endTask\<close>. Between two of them it runs
  without interruption in the model.
\<close>

datatype goroutine = Fetching | Starting | Executing | Reporting string | Finished

datatype process = Alive | Returned | Panicked

record 'b scheduler =
  currentTask :: "ClientTask option"
  goroutines :: "goroutine list"
  trace :: "'b io list"
  process :: process

definition init :: "'b scheduler" where
  "init = \<lparr>currentTask = None, goroutines = [], trace = [], process = Alive\<rparr>"

text \<open>
  What happens next is chosen from outside: the ticker fires (with the result \<open>checkin\<close>
  will have, should it be called), a blocked call of goroutine \<open>i\<close> returns, or the
  context is cancelled.
\<close>

datatype 'b action =
  Tick "error option"
  | TasksFetched nat "error + ClientTask list" time
  | TaskStarted nat "error option"
  | JobDone nat "'b bhe" "'b list"
  | TaskEnded nat "error option"
  | CtxDone

definition at :: "'b scheduler \<Rightarrow> nat \<Rightarrow> goroutine \<Rightarrow> bool" where
  "at s i g = (process s = Alive \<and> i < length (goroutines s) \<and> goroutines s ! i = g)"

definition finish :: "nat \<Rightarrow> 'b io list \<Rightarrow> 'b scheduler \<Rightarrow> 'b scheduler" where
  "finish i ios s = s\<lparr>goroutines := (goroutines s)[i := Finished], trace := trace s @ ios\<rparr>"

text \<open>
  One step of the service, by the lines of \<open>start\<close>: the tick (101 to 165), the answer to
  \<open>getAvailableTasks\<close> (110 to 134), to \<open>startTask\<close> (134 to 145), the end of the ingest
  pass (145 to 155), the answer to \<open>endTask\<close> (155 to 161) and the cancellation (166). A
  goroutine keeps its \<open>message\<close> while it waits for \<open>endTask\<close>. The log line after a
  successful \<open>endTask\<close> reads \<open>currentTask.Id\<close>: with \<open>currentTask\<close> nil this is a nil
  dereference and the process panics. Once the loop has returned or the process has
  panicked, nothing happens any more.
\<close>

fun step :: "sorter \<Rightarrow> 'b action \<Rightarrow> 'b scheduler \<Rightarrow> 'b scheduler" where
  "step srt (Tick r) s =
     (if process s \<noteq> Alive then s
      else
        (case currentTask s of
           Some task \<Rightarrow>
             s\<lparr>trace := trace s @ [LogInfo ''collection in progress...'', Checkin] @
                 (case r of
                    Some err \<Rightarrow> [LogErr ''bloodhound enterprise service checkin failed'']
                  | None \<Rightarrow> [])\<rparr>
         | None \<Rightarrow>
             s\<lparr>goroutines := goroutines s @ [Fetching],
               trace := trace s @
                 [LogInfo ''checking for available collection tasks'', GetAvailableTasks]\<rparr>))"
| "step srt (TasksFetched i r now) s =
     (if \<not> at s i Fetching then s
      else
        (case r of
           Inl err \<Rightarrow> finish i [LogErr ''unable to fetch available tasks for azurehound''] s
         | Inr availableTasks \<Rightarrow>
             (case executableTasks srt now availableTasks of
                [] \<Rightarrow>
                  finish i [LogInfo ''there are no tasks for azurehound to complete at this time''] s
              | task # _ \<Rightarrow>
                  s\<lparr>currentTask := Some task,
                    goroutines := (goroutines s)[i := Starting],
                    trace := trace s @
                      [LogInfo ''beginning collection task'', StartTask (Id' task)]\<rparr>)))"
| "step srt (TaskStarted i r) s =
     (if \<not> at s i Starting then s
      else
        (case r of
           Some err \<Rightarrow>
             (finish i [LogErr ''failed to start task, will retry on next heartbeat''] s)
               \<lparr>currentTask := None\<rparr>
         | None \<Rightarrow>
             s\<lparr>goroutines := (goroutines s)[i := Executing], trace := trace s @ [ListAll]\<rparr>))"
| "step srt (JobDone i env batches) s =
     (if \<not> at s i Executing then s
      else
        (case ingest env batches of
           (hasIngestErr, logs) \<Rightarrow>
             s\<lparr>goroutines := (goroutines s)[i := Reporting (completion_message hasIngestErr)],
               trace := trace s @
                 [Ingest logs, EndTask JobStatusComplete (completion_message hasIngestErr)]\<rparr>))"
| "step srt (TaskEnded i r) s =
     (if process s \<noteq> Alive \<or> \<not> i < length (goroutines s) then s
      else
        (case goroutines s ! i of
           Reporting message \<Rightarrow>
             (case r of
                Some err \<Rightarrow> (finish i [LogErr ''failed to end task''] s)\<lparr>currentTask := None\<rparr>
              | None \<Rightarrow>
                  (case currentTask s of
                     None \<Rightarrow> s\<lparr>process := Panicked\<rparr>
                   | Some task \<Rightarrow> (finish i [LogInfo message] s)\<lparr>currentTask := None\<rparr>))
         | _ \<Rightarrow> s))"
| "step srt CtxDone s = (if process s \<noteq> Alive then s else s\<lparr>process := Returned\<rparr>)"

text \<open>
  The loop of \<open>start\<close> from the moment it is entered (no task held, no goroutine), under
  a schedule of what happens, oldest first.
\<close>

definition start :: "sorter \<Rightarrow> 'b action list \<Rightarrow> 'b scheduler" where
  "start srt actions = fold (step srt) actions init"

text \<open>
  One sort that \<open>sort.Slice\<close> can be. On a slice of at most 12 elements the Go releases up to
  1.18 run one pass that compares and swaps the elements six places apart, then an insertion
  sort; \<open>sort_Slice\<close> does the same on a list of any length.
\<close>

definition swap :: "nat \<Rightarrow> nat \<Rightarrow> 'a list \<Rightarrow> 'a list" where
  "swap i j xs = xs[i := xs ! j, j := xs ! i]"

fun sift :: "('a \<Rightarrow> 'a \<Rightarrow> bool) \<Rightarrow> nat \<Rightarrow> 'a list \<Rightarrow> 'a list" where
  "sift lt 0 xs = xs"
| "sift lt (Suc j) xs =
     (if lt (xs ! Suc j) (xs ! j) then sift lt j (swap (Suc j) j xs) else xs)"

definition insertionSort :: "('a \<Rightarrow> 'a \<Rightarrow> bool) \<Rightarrow> 'a list \<Rightarrow> 'a list" where
  "insertionSort lt xs = fold (sift lt) [1..<length xs] xs"

definition gapPass :: "('a \<Rightarrow> 'a \<Rightarrow> bool) \<Rightarrow> 'a list \<Rightarrow> 'a list" where
  "gapPass lt xs =
     fold (\<lambda>i ys. if lt (ys ! i) (ys ! (i - 6)) then swap i (i - 6) ys else ys) [6..<length xs] xs"

definition sort_Slice :: "('a \<Rightarrow> 'a \<Rightarrow> bool) \<Rightarrow> 'a list \<Rightarrow> 'a list" where
  "sort_Slice lt xs = insertionSort lt (gapPass lt xs)"

text \<open>
  The selection in the words of the specification: of the due tasks the one with the least
  execution time, the first discovered among equals.
\<close>

definition earliest_due_stable :: "time \<Rightarrow> ClientTask list \<Rightarrow> ClientTask option" where
  "earliest_due_stable now tasks =
     (case filter (\<lambda>task. ExectionTime task \<le> now) tasks of
        [] \<Rightarrow> None
      | d # ds \<Rightarrow>
          Some (fold (\<lambda>task best. if ExectionTime task < ExectionTime best then task else best) ds d))"

subsection \<open>Facts about the retry loop\<close>

lemma attempts_done:
  "\<not> retry < maxRetries \<Longrightarrow> attempts d retry h n = (LoopEnd, h, n, [])"
  by (simp add: attempts.simps [of d retry h n])

lemma attempts_fatal_now:
  "retry < maxRetries \<Longrightarrow> fatal (d n) \<Longrightarrow>
   attempts d retry h n = (ReturnTrue, h, Suc n, [Request (d n), LogError UnrecoverableErr])"
  by (simp add: attempts.simps [of d retry h n] fatal_def split: response.splits)

lemma attempts_transient_now:
  "retry < maxRetries \<Longrightarrow> transient (d n) \<Longrightarrow>
   attempts d retry h n =
     emit (Request (d n) # Sleep (backoff retry) #
           (if Suc retry = maxRetries then [LogError ErrExceededRetryLimit] else []))
       (attempts d (Suc retry) (h \<or> Suc retry = maxRetries) (Suc n))"
  by (auto simp add: attempts.simps [of d retry h n] transient_def)

lemma attempts_accepted_now:
  "retry < maxRetries \<Longrightarrow> d n = StatusCode StatusAccepted \<Longrightarrow>
   attempts d retry h n = emit [Request (d n)] (attempts d (Suc retry) h (Suc n))"
  by (simp add: attempts.simps [of d retry h n])

lemma response_cases:
  obtains (fatal) "fatal r" | (transient) "transient r" | (accepted) "r = StatusCode StatusAccepted"
  by (cases r) (auto simp: fatal_def transient_def)

lemma emit_flag: "fst (snd (emit es r)) = fst (snd r)"
  by (simp add: emit_def split: prod.splits)

lemma attempts_keeps_errors:
  "fst (snd (attempts d retry True n))"
proof (induction "maxRetries - retry" arbitrary: retry n)
  case 0
  then show ?case by (simp add: attempts_done)
next
  case (Suc m)
  then have lt: "retry < maxRetries" and m: "m = maxRetries - Suc retry" by simp_all
  show ?case
  proof (cases "d n" rule: response_cases)
    case fatal
    then show ?thesis using lt by (simp add: attempts_fatal_now)
  next
    case transient
    then show ?thesis using lt Suc.hyps(1) [OF m, of "Suc n"]
      by (simp add: attempts_transient_now emit_flag)
  next
    case accepted
    then show ?thesis using lt Suc.hyps(1) [OF m, of "Suc n"]
      by (simp add: attempts_accepted_now emit_flag)
  qed
qed

lemma ingest_loop_True: "fst (ingest_loop env bs True n)"
proof (induction bs arbitrary: n)
  case Nil
  show ?case by simp
next
  case (Cons data rest)
  obtain x h1 n1 es where a: "attempts (Do env) 0 True n = (x, h1, n1, es)"
    by (cases "attempts (Do env) 0 True n") auto
  with attempts_keeps_errors [of "Do env" 0 n] have h1 by simp
  with a Cons.IH [of n1] show ?case
    by (auto split: prod.splits exit.splits)
qed

lemma stops_at_emit:
  "stops_at d k (Suc n) r \<Longrightarrow> length (filter is_request es) = 1 \<Longrightarrow> stops_at d k n (emit es r)"
proof -
  obtain x h n' es' where r: "r = (x, h, n', es')" by (cases r) auto
  assume a: "stops_at d k (Suc n) r" and l: "length (filter is_request es) = 1"
  have "\<exists>es0. es @ es' = es0 @ [Request (d k), LogError UnrecoverableErr]"
    if "es' = es1 @ [Request (d k), LogError UnrecoverableErr]" for es1
    using that by (intro exI [of _ "es @ es1"]) simp
  with a l r show ?thesis
    by (auto simp: stops_at_def emit_def)
qed

lemma attempts_fatal:
  "fatal (d k) \<Longrightarrow> n \<le> k \<Longrightarrow> stops_at d k n (attempts d retry h n)"
proof (induction "maxRetries - retry" arbitrary: retry n h)
  case 0
  then show ?case by (simp add: attempts_done stops_at_def)
next
  case (Suc m)
  then have lt: "retry < maxRetries" and m: "m = maxRetries - Suc retry" by simp_all
  show ?case
  proof (cases "d n" rule: response_cases)
    case fatal
    then show ?thesis using lt Suc.prems
      by (cases "n = k") (auto simp add: attempts_fatal_now stops_at_def)
  next
    case transient
    then have "n \<noteq> k" using Suc.prems(1) by (auto simp: transient_def fatal_def)
    then have "Suc n \<le> k" using Suc.prems(2) by simp
    from Suc.hyps(1) [OF m Suc.prems(1) this] transient lt show ?thesis
      by (simp add: attempts_transient_now stops_at_emit)
  next
    case accepted
    then have "n \<noteq> k" using Suc.prems(1) by (auto simp: fatal_def)
    then have "Suc n \<le> k" using Suc.prems(2) by simp
    from Suc.hyps(1) [OF m Suc.prems(1) this] accepted lt show ?thesis
      by (simp add: attempts_accepted_now stops_at_emit)
  qed
qed

lemma ingest_loop_fatal:
  "fatal (Do env k) \<Longrightarrow> n \<le> k \<Longrightarrow> ingest_loop env bs h n = (flag, logs) \<Longrightarrow>
     n + requests logs \<le> Suc k \<and>
     (n + requests logs = Suc k \<longrightarrow> flag \<and>
        (\<exists>pre data es. logs = pre @ [(data, es @ [Request (Do env k), LogError UnrecoverableErr])]))"
proof (induction bs arbitrary: h n flag logs)
  case Nil
  then show ?case by (auto simp: requests_def)
next
  case (Cons data rest)
  show ?case
  proof (cases "NewRequest env data")
    case False
    with Cons.prems show ?thesis by (auto simp: requests_def)
  next
    case True
    obtain x h1 n1 es where a: "attempts (Do env) 0 h n = (x, h1, n1, es)"
      by (cases "attempts (Do env) 0 h n") auto
    from attempts_fatal [of "Do env" k n 0 h] Cons.prems(1,2) a
    have s: "n1 = n + length (filter is_request es)" "n1 \<le> Suc k" "x = LoopEnd \<longrightarrow> n1 \<le> k"
      "n1 = Suc k \<longrightarrow> (\<exists>es0. es = es0 @ [Request (Do env k), LogError UnrecoverableErr])"
      by (auto simp: stops_at_def)
    show ?thesis
    proof (cases x)
      case ReturnTrue
      with True a Cons.prems(3) have "flag" "logs = [(data, es)]" by auto
      with s show ?thesis by (auto simp: requests_def)
    next
      case LoopEnd
      with s have n1: "n1 \<le> k" by simp
      obtain flag' logs' where r: "ingest_loop env rest h1 n1 = (flag', logs')"
        by (cases "ingest_loop env rest h1 n1") auto
      with True a LoopEnd Cons.prems(3) have fl: "flag = flag'" "logs = (data, es) # logs'" by auto
      from Cons.IH [OF Cons.prems(1) n1 r] s(1) fl show ?thesis
        by (auto simp: requests_def intro: exI [of _ "(data, es) # _"])
    qed
  qed
qed

lemma map_fst_ingest_loop:
  "ingest_loop env bs h n = (flag, logs) \<Longrightarrow> map fst logs = take (length logs) bs"
  by (induction bs arbitrary: h n flag logs) (auto split: if_splits prod.splits exit.splits)

lemma attempts_transient3:
  assumes "transient (d sent)" "transient (d (sent + 1))" "transient (d (sent + 2))"
  shows "attempts d 0 h sent = (LoopEnd, True, sent + 3,
     [Request (d sent), Sleep 5, Request (d (sent + 1)), Sleep 25,
      Request (d (sent + 2)), Sleep 125, LogError ErrExceededRetryLimit])"
  using assms
  by (simp add: attempts_transient_now attempts_done maxRetries_def emit_def backoff_def
      numeral_3_eq_3)


subsection \<open>Properties of the ingest pass\<close>

text \<open>
  C2 (evaluation). One batch, and a server that answers 202 Accepted to every request: the batch
  is posted three times. After the accepted response the loop neither breaks nor returns, so
  the claim that an accepted batch gets no further request fails on the code.
\<close>

theorem accepted_batch_is_posted_three_times:
  "ingest \<lparr>NewRequest = (\<lambda>data. True), Do = (\<lambda>n. StatusCode StatusAccepted)\<rparr> [''batch0''] =
     (False,
      [(''batch0'',
        [Request (StatusCode StatusAccepted), Request (StatusCode StatusAccepted),
         Request (StatusCode StatusAccepted)])])"
  by (simp add: ingest_def attempts.simps maxRetries_def emit_def)

text \<open>
  C5. A batch whose three requests are all answered 503 or 504 is tried three times and no
  more, with sleeps of 5 and 25 seconds between the attempts (and one of 125 seconds after the
  last); it sets the error flag, which the pass then returns, and the loop goes on with the
  remaining batches.
\<close>

theorem transient_batch_three_attempts_then_next:
  assumes "NewRequest env data"
    and "transient (Do env sent)"
    and "transient (Do env (sent + 1))"
    and "transient (Do env (sent + 2))"
  shows "ingest_loop env (data # rest) h sent =
     (True,
      (data,
       [Request (Do env sent), Sleep 5, Request (Do env (sent + 1)), Sleep 25,
        Request (Do env (sent + 2)), Sleep 125, LogError ErrExceededRetryLimit]) #
      snd (ingest_loop env rest True (sent + 3)))"
proof -
  obtain flag logs where r: "ingest_loop env rest True (sent + 3) = (flag, logs)"
    by (cases "ingest_loop env rest True (sent + 3)") auto
  with ingest_loop_True [of env rest "sent + 3"] have "flag"
    by simp
  with r show ?thesis
    using assms(1) attempts_transient3 [OF assms(2-4), of h]
    by simp
qed

theorem transient_batch_three_attempts_then_next_witness:
  "ingest
     \<lparr>NewRequest = (\<lambda>data. True),
      Do = (\<lambda>n. if n < 3 then StatusCode StatusServiceUnavailable else StatusCode StatusAccepted)\<rparr>
     [''batch0'', ''batch1''] =
     (True,
      [(''batch0'',
        [Request (StatusCode StatusServiceUnavailable), Sleep 5,
         Request (StatusCode StatusServiceUnavailable), Sleep 25,
         Request (StatusCode StatusServiceUnavailable), Sleep 125,
         LogError ErrExceededRetryLimit]),
       (''batch1'',
        [Request (StatusCode StatusAccepted), Request (StatusCode StatusAccepted),
         Request (StatusCode StatusAccepted)])])"
proof -
  let ?env = "\<lparr>NewRequest = (\<lambda>data. True),
      Do = (\<lambda>n. if n < 3 then StatusCode StatusServiceUnavailable else StatusCode StatusAccepted)\<rparr>
      :: string bhe"
  have n: "NewRequest ?env ''batch0''"
    by simp
  have t0: "transient (Do ?env 0)" and t1: "transient (Do ?env (0 + 1))"
    and t2: "transient (Do ?env (0 + 2))"
    by (simp_all add: transient_def)
  have rest: "ingest_loop ?env [''batch1''] True (0 + 3) =
     (True, [(''batch1'', [Request (StatusCode StatusAccepted), Request (StatusCode StatusAccepted),
         Request (StatusCode StatusAccepted)])])"
    by (simp add: attempts.simps maxRetries_def emit_def)
  show ?thesis
    using transient_batch_three_attempts_then_next [OF n t0 t1 t2, of "[''batch1'']" False] rest
    by (simp add: ingest_def)
qed

text \<open>
  C6. Let the \<open>k\<close>-th answer of the server be a transport failure or a status other than 503,
  504 and 202. Then the pass sends no request after request \<open>k\<close>; if it sends request \<open>k\<close>,
  it returns \<open>true\<close> and the request, with the log line of the unrecoverable error, is the last
  thing it does. The batches it takes up are an initial segment of the batches: none after the
  one that failed.
\<close>

theorem ingest_stops_at_unrecoverable:
  assumes "fatal (Do env k)" and "ingest env batches = (flag, logs)"
  shows "requests logs \<le> Suc k \<and>
     (requests logs = Suc k \<longrightarrow>
        flag \<and>
        (\<exists>pre data es.
           logs = pre @ [(data, es @ [Request (Do env k), LogError UnrecoverableErr])])) \<and>
     map fst logs = take (length logs) batches"
  using ingest_loop_fatal [OF assms(1), of 0 batches False flag logs]
    map_fst_ingest_loop [of env batches False 0 flag logs] assms(2)
  by (simp add: ingest_def)

theorem ingest_stops_at_unrecoverable_witness:
  "requests
     (snd (ingest
       \<lparr>NewRequest = (\<lambda>data. True),
        Do = (\<lambda>n. if n = 4 then StatusCode 500 else StatusCode StatusAccepted)\<rparr>
       [''batch0'', ''batch1'', ''batch2''])) = 5 \<and>
   ingest
     \<lparr>NewRequest = (\<lambda>data. True),
      Do = (\<lambda>n. if n = 4 then StatusCode 500 else StatusCode StatusAccepted)\<rparr>
     [''batch0'', ''batch1'', ''batch2''] =
     (True,
      [(''batch0'',
        [Request (StatusCode StatusAccepted), Request (StatusCode StatusAccepted),
         Request (StatusCode StatusAccepted)]),
       (''batch1'',
        [Request (StatusCode StatusAccepted), Request (StatusCode 500),
         LogError UnrecoverableErr])])"
proof -
  let ?env = "\<lparr>NewRequest = (\<lambda>data. True),
      Do = (\<lambda>n. if n = 4 then StatusCode 500 else StatusCode StatusAccepted)\<rparr> :: string bhe"
  let ?logs = "[(''batch0'',
        [Request (StatusCode StatusAccepted), Request (StatusCode StatusAccepted),
         Request (StatusCode StatusAccepted)]),
       (''batch1'',
        [Request (StatusCode StatusAccepted), Request (StatusCode 500),
         LogError UnrecoverableErr])]"
  have f: "fatal (Do ?env 4)"
    by (simp add: fatal_def)
  have i: "ingest ?env [''batch0'', ''batch1'', ''batch2''] = (True, ?logs)"
    by (simp add: ingest_def attempts.simps maxRetries_def emit_def)
  have "requests ?logs \<le> Suc 4"
    using ingest_stops_at_unrecoverable [OF f i] by blast
  moreover have "5 \<le> requests ?logs"
    by (simp add: requests_def)
  ultimately show ?thesis
    using i by simp
qed

text \<open>
  C7 (evaluation). One batch; the server accepts the first two requests and answers the third
  with 503. The pass returns \<open>true\<close>, although nothing was aborted and the batch was accepted
  at its first attempt.
\<close>

theorem accepted_batch_sets_error_flag:
  "ingest
     \<lparr>NewRequest = (\<lambda>data. True),
      Do = (\<lambda>n. if n = 2 then StatusCode StatusServiceUnavailable else StatusCode StatusAccepted)\<rparr>
     [''batch0''] =
     (True,
      [(''batch0'',
        [Request (StatusCode StatusAccepted), Request (StatusCode StatusAccepted),
         Request (StatusCode StatusServiceUnavailable), Sleep 125,
         LogError ErrExceededRetryLimit])])"
  by (simp add: ingest_def attempts.simps maxRetries_def emit_def backoff_def)

subsection \<open>Properties of the service loop\<close>

subsubsection \<open>Sorting the due tasks\<close>

lemma executableTasks_head:
  assumes "sorts srt (\<lambda>a b. ExectionTime a < ExectionTime b)
      (filter (\<lambda>task. ExectionTime task < now \<or> ExectionTime task = now) availableTasks)"
    and "executableTasks srt now availableTasks = task # rest"
  shows "task \<in> set availableTasks \<and> ExectionTime task \<le> now \<and>
     (\<forall>other\<in>set availableTasks.
        ExectionTime other \<le> now \<longrightarrow> ExectionTime task \<le> ExectionTime other)"
proof -
  let ?due = "filter (\<lambda>task. ExectionTime task < now \<or> ExectionTime task = now) availableTasks"
  from assms have m: "mset (task # rest) = mset ?due"
    and s: "sorted_wrt (\<lambda>a b. \<not> ExectionTime b < ExectionTime a) (task # rest)"
    by (simp_all add: sorts_def executableTasks_def)
  from m have e: "set (task # rest) = set ?due"
    by (rule mset_eq_setD)
  then have "task \<in> set ?due"
    by auto
  then have 1: "task \<in> set availableTasks \<and> ExectionTime task \<le> now"
    by auto
  have "ExectionTime task \<le> ExectionTime other"
    if "other \<in> set availableTasks" and "ExectionTime other \<le> now" for other
  proof -
    from that have "other \<in> set ?due"
      by auto
    with e have "other = task \<or> other \<in> set rest"
      by auto
    with s show ?thesis
      by auto
  qed
  with 1 show ?thesis
    by blast
qed

lemma executableTasks_empty:
  assumes "sorts srt (\<lambda>a b. ExectionTime a < ExectionTime b)
      (filter (\<lambda>task. ExectionTime task < now \<or> ExectionTime task = now) availableTasks)"
  shows "executableTasks srt now availableTasks = [] \<longleftrightarrow>
     (\<forall>task\<in>set availableTasks. now < ExectionTime task)"
proof -
  let ?due = "filter (\<lambda>task. ExectionTime task < now \<or> ExectionTime task = now) availableTasks"
  from assms have "mset (executableTasks srt now availableTasks) = mset ?due"
    by (simp add: sorts_def executableTasks_def)
  then have "executableTasks srt now availableTasks = [] \<longleftrightarrow> ?due = []"
    by (metis mset_zero_iff)
  also have "?due = [] \<longleftrightarrow> (\<forall>task\<in>set availableTasks. now < ExectionTime task)"
    unfolding filter_empty_conv by (intro ball_cong refl) linarith
  finally show ?thesis .
qed

lemma sort_Slice_two:
  "sort_Slice (\<lambda>a b. ExectionTime a < ExectionTime b)
     [\<lparr>Id' = 2, ExectionTime = 95\<rparr>, \<lparr>Id' = 3, ExectionTime = 90\<rparr>] =
     [\<lparr>Id' = 3, ExectionTime = 90\<rparr>, \<lparr>Id' = 2, ExectionTime = 95\<rparr>]"
  by (simp add: sort_Slice_def insertionSort_def gapPass_def swap_def upt_rec [of _ 2] numeral_nat)

lemma sort_Slice_none:
  "sort_Slice lt [] = []"
  by (simp add: sort_Slice_def insertionSort_def gapPass_def)

lemma sort_Slice_seven:
  "sort_Slice (\<lambda>a b. ExectionTime a < ExectionTime b)
         [\<lparr>Id' = 1, ExectionTime = 9\<rparr>, \<lparr>Id' = 2, ExectionTime = 1\<rparr>,
          \<lparr>Id' = 3, ExectionTime = 9\<rparr>, \<lparr>Id' = 4, ExectionTime = 9\<rparr>,
          \<lparr>Id' = 5, ExectionTime = 9\<rparr>, \<lparr>Id' = 6, ExectionTime = 9\<rparr>,
          \<lparr>Id' = 7, ExectionTime = 1\<rparr>] = 
         [\<lparr>Id' = 7, ExectionTime = 1\<rparr>, \<lparr>Id' = 2, ExectionTime = 1\<rparr>,
          \<lparr>Id' = 3, ExectionTime = 9\<rparr>, \<lparr>Id' = 4, ExectionTime = 9\<rparr>,
          \<lparr>Id' = 5, ExectionTime = 9\<rparr>, \<lparr>Id' = 6, ExectionTime = 9\<rparr>,
          \<lparr>Id' = 1, ExectionTime = 9\<rparr>]"
  by (simp add: sort_Slice_def insertionSort_def gapPass_def swap_def upt_rec [of _ 7] upt_rec [of _ 6] numeral_nat)

subsubsection \<open>Selection, start and end of a job\<close>

text \<open>
  C1 (as amended). When the job of a goroutine is over, the goroutine reports the end of the
  task with the status \<open>JobStatusComplete\<close>, whatever the ingest pass returned; the message
  alone tells whether the pass returned its error flag.
\<close>

theorem job_end_reports_complete_with_message:
  assumes "at s i Executing"
  shows "trace (step srt (JobDone i env batches) s) =
     trace s @
       [Ingest (snd (ingest env batches)),
        EndTask JobStatusComplete
          (if fst (ingest env batches) then ''Collection completed with errors during ingest''
           else ''Collection completed successfully'')]"
  using assms by (simp add: completion_message_def split: prod.splits)

theorem job_end_reports_complete_with_message_witness:
  "trace
     (step sort_Slice
        (JobDone 0 \<lparr>NewRequest = (\<lambda>data. True), Do = (\<lambda>n. StatusCode StatusAccepted)\<rparr> [''batch0''])
        \<lparr>currentTask = Some \<lparr>Id' = 2, ExectionTime = 0\<rparr>, goroutines = [Executing],
          trace = [], process = Alive\<rparr>) =
     [Ingest
        [(''batch0'',
          [Request (StatusCode StatusAccepted), Request (StatusCode StatusAccepted),
           Request (StatusCode StatusAccepted)])],
      EndTask JobStatusComplete ''Collection completed successfully'']"
proof -
  let ?s = "\<lparr>currentTask = Some \<lparr>Id' = 2, ExectionTime = 0\<rparr>, goroutines = [Executing],
          trace = [], process = Alive\<rparr> :: string scheduler"
  let ?env = "\<lparr>NewRequest = (\<lambda>data. True), Do = (\<lambda>n. StatusCode StatusAccepted)\<rparr> :: string bhe"
  have a: "at ?s 0 Executing"
    by (simp add: at_def)
  have i: "ingest ?env [''batch0''] =
     (False, [(''batch0'',
          [Request (StatusCode StatusAccepted), Request (StatusCode StatusAccepted),
           Request (StatusCode StatusAccepted)])])"
    by (simp add: ingest_def attempts.simps maxRetries_def emit_def)
  show ?thesis
    using job_end_reports_complete_with_message [OF a, of sort_Slice ?env "[''batch0'']"] i
    by simp
qed

text \<open>
  C1 (counterexample). The only request of the job fails in transport, so the ingest pass
  returns its error flag; the status reported is \<open>Completed\<close> all the same, not
  \<open>CompletedWithErrors\<close>.
\<close>

theorem job_with_ingest_error_reports_completed:
  "fst (ingest \<lparr>NewRequest = (\<lambda>data. True), Do = (\<lambda>n. TransportError)\<rparr> [''batch0'']) \<and>
   last (trace
     (step sort_Slice
        (JobDone 0 \<lparr>NewRequest = (\<lambda>data. True), Do = (\<lambda>n. TransportError)\<rparr> [''batch0''])
        \<lparr>currentTask = Some \<lparr>Id' = 2, ExectionTime = 0\<rparr>, goroutines = [Executing],
          trace = [], process = Alive\<rparr>)) =
     EndTask Completed ''Collection completed with errors during ingest'' \<and>
   EndTask Completed ''Collection completed with errors during ingest'' \<noteq>
     (EndTask CompletedWithErrors ''Collection completed with errors during ingest'' :: string io)"
  by (simp add: ingest_def attempts.simps maxRetries_def at_def completion_message_def)

text \<open>
  C3 (as amended). Let \<open>sort.Slice\<close> return a sorted permutation of the due tasks. If no
  fetched task is due, the goroutine ends without starting one. Otherwise it starts a task
  that is due and whose execution time is the least among the due tasks. Which of several
  tasks with that least time it starts is left to \<open>sort.Slice\<close>.
\<close>

theorem selection_starts_an_earliest_due_task:
  assumes "at s i Fetching"
    and "sorts srt (\<lambda>a b. ExectionTime a < ExectionTime b)
      (filter (\<lambda>task. ExectionTime task < now \<or> ExectionTime task = now) availableTasks)"
  shows "((\<forall>task\<in>set availableTasks. now < ExectionTime task) \<longrightarrow>
        currentTask (step srt (TasksFetched i (Inr availableTasks) now) s) = currentTask s \<and>
        goroutines (step srt (TasksFetched i (Inr availableTasks) now) s) =
          (goroutines s)[i := Finished] \<and>
        trace (step srt (TasksFetched i (Inr availableTasks) now) s) =
          trace s @ [LogInfo ''there are no tasks for azurehound to complete at this time'']) \<and>
     ((\<exists>task\<in>set availableTasks. ExectionTime task \<le> now) \<longrightarrow>
        (\<exists>task\<in>set availableTasks.
           ExectionTime task \<le> now \<and>
           (\<forall>other\<in>set availableTasks.
              ExectionTime other \<le> now \<longrightarrow> ExectionTime task \<le> ExectionTime other) \<and>
           currentTask (step srt (TasksFetched i (Inr availableTasks) now) s) = Some task \<and>
           goroutines (step srt (TasksFetched i (Inr availableTasks) now) s) =
             (goroutines s)[i := Starting] \<and>
           trace (step srt (TasksFetched i (Inr availableTasks) now) s) =
             trace s @ [LogInfo ''beginning collection task'', StartTask (Id' task)]))"
proof (cases "executableTasks srt now availableTasks")
  case Nil
  with executableTasks_empty [OF assms(2)]
  have none: "\<forall>task\<in>set availableTasks. now < ExectionTime task"
    by simp
  then have "\<not> (\<exists>task\<in>set availableTasks. ExectionTime task \<le> now)"
    by auto
  with Nil assms(1) show ?thesis
    by (simp add: finish_def)
next
  case (Cons task rest)
  from executableTasks_head [OF assms(2) Cons]
  have h: "task \<in> set availableTasks" "ExectionTime task \<le> now"
    "\<forall>other\<in>set availableTasks.
        ExectionTime other \<le> now \<longrightarrow> ExectionTime task \<le> ExectionTime other"
    by simp_all
  from h(1,2) have "\<not> (\<forall>task\<in>set availableTasks. now < ExectionTime task)"
    by (metis not_less)
  moreover have "\<exists>task\<in>set availableTasks.
           ExectionTime task \<le> now \<and>
           (\<forall>other\<in>set availableTasks.
              ExectionTime other \<le> now \<longrightarrow> ExectionTime task \<le> ExectionTime other) \<and>
           currentTask (step srt (TasksFetched i (Inr availableTasks) now) s) = Some task \<and>
           goroutines (step srt (TasksFetched i (Inr availableTasks) now) s) =
             (goroutines s)[i := Starting] \<and>
           trace (step srt (TasksFetched i (Inr availableTasks) now) s) =
             trace s @ [LogInfo ''beginning collection task'', StartTask (Id' task)]"
    using h Cons assms(1) by (intro bexI [of _ task]) simp_all
  ultimately show ?thesis
    by blast
qed

theorem selection_starts_an_earliest_due_task_witness:
  "currentTask
     (step sort_Slice
        (TasksFetched 0
           (Inr
             [\<lparr>Id' = 1, ExectionTime = 110\<rparr>, \<lparr>Id' = 2, ExectionTime = 95\<rparr>,
              \<lparr>Id' = 3, ExectionTime = 90\<rparr>])
           100)
        \<lparr>currentTask = None, goroutines = [Fetching], trace = [], process = Alive\<rparr>) =
     Some \<lparr>Id' = 3, ExectionTime = 90\<rparr> \<and>
   trace
     (step sort_Slice
        (TasksFetched 0
           (Inr
             [\<lparr>Id' = 1, ExectionTime = 110\<rparr>, \<lparr>Id' = 2, ExectionTime = 95\<rparr>,
              \<lparr>Id' = 3, ExectionTime = 90\<rparr>])
           100)
        \<lparr>currentTask = None, goroutines = [Fetching], trace = [], process = Alive\<rparr>) =
     [LogInfo ''beginning collection task'', StartTask 3 :: string io] \<and>
   trace
     (step sort_Slice (TasksFetched 0 (Inr [\<lparr>Id' = 1, ExectionTime = 110\<rparr>]) 100)
        \<lparr>currentTask = None, goroutines = [Fetching], trace = [], process = Alive\<rparr>) =
     [LogInfo ''there are no tasks for azurehound to complete at this time'' :: string io]"
proof -
  let ?s = "\<lparr>currentTask = None, goroutines = [Fetching], trace = [], process = Alive\<rparr>
    :: string scheduler"
  let ?tasks = "[\<lparr>Id' = 1, ExectionTime = 110\<rparr>, \<lparr>Id' = 2, ExectionTime = 95\<rparr>,
              \<lparr>Id' = 3, ExectionTime = 90\<rparr>]"
  have a: "at ?s 0 Fetching"
    by (simp add: at_def)
  have due: "sorts sort_Slice (\<lambda>a b. ExectionTime a < ExectionTime b)
      (filter (\<lambda>task. ExectionTime task < 100 \<or> ExectionTime task = 100) ?tasks)"
    by (simp add: sorts_def sort_Slice_two)
  have none: "sorts sort_Slice (\<lambda>a b. ExectionTime a < ExectionTime b)
      (filter (\<lambda>task. ExectionTime task < 100 \<or> ExectionTime task = 100)
         [\<lparr>Id' = 1, ExectionTime = 110\<rparr>])"
    by (simp add: sorts_def sort_Slice_none)
  show ?thesis
    using selection_starts_an_earliest_due_task [OF a due]
      selection_starts_an_earliest_due_task [OF a none]
    by (simp add: at_def executableTasks_def sort_Slice_two sort_Slice_none finish_def)
qed

text \<open>
  C3 (counterexample). Seven due tasks; the second and the seventh share the least execution
  time. The pass over the elements six places apart swaps the first task with the seventh,
  which the insertion sort then leaves in front: the goroutine starts task 7, discovered
  last, and not task 2.
\<close>

theorem tie_not_broken_by_discovery_order:
  "currentTask
     (step sort_Slice
        (TasksFetched 0
           (Inr
             [\<lparr>Id' = 1, ExectionTime = 9\<rparr>, \<lparr>Id' = 2, ExectionTime = 1\<rparr>,
              \<lparr>Id' = 3, ExectionTime = 9\<rparr>, \<lparr>Id' = 4, ExectionTime = 9\<rparr>,
              \<lparr>Id' = 5, ExectionTime = 9\<rparr>, \<lparr>Id' = 6, ExectionTime = 9\<rparr>,
              \<lparr>Id' = 7, ExectionTime = 1\<rparr>])
           10)
        \<lparr>currentTask = None, goroutines = [Fetching], trace = [], process = Alive\<rparr>) =
     Some \<lparr>Id' = 7, ExectionTime = 1\<rparr> \<and>
   earliest_due_stable 10
     [\<lparr>Id' = 1, ExectionTime = 9\<rparr>, \<lparr>Id' = 2, ExectionTime = 1\<rparr>,
      \<lparr>Id' = 3, ExectionTime = 9\<rparr>, \<lparr>Id' = 4, ExectionTime = 9\<rparr>,
      \<lparr>Id' = 5, ExectionTime = 9\<rparr>, \<lparr>Id' = 6, ExectionTime = 9\<rparr>,
      \<lparr>Id' = 7, ExectionTime = 1\<rparr>] =
     Some \<lparr>Id' = 2, ExectionTime = 1\<rparr>"
  by (simp add: at_def executableTasks_def earliest_due_stable_def sort_Slice_seven)

text \<open>
  C4 (evaluation). Two ticks pass before the first \<open>getAvailableTasks\<close> returns, so two
  goroutines are dispatched. The first starts the task and runs its job; then the answer of
  the second arrives, and it starts the task again: two \<open>startTask\<close> calls with no \<open>endTask\<close>
  between them, and two jobs running at once.
\<close>

theorem two_jobs_running_at_once:
  "goroutines
     (start sort_Slice
        [Tick None, Tick None,
         TasksFetched 0 (Inr [\<lparr>Id' = 7, ExectionTime = 1\<rparr>]) 5, TaskStarted 0 None,
         TasksFetched 1 (Inr [\<lparr>Id' = 7, ExectionTime = 1\<rparr>]) 6, TaskStarted 1 None]) =
     [Executing, Executing] \<and>
   trace
     (start sort_Slice
        [Tick None, Tick None,
         TasksFetched 0 (Inr [\<lparr>Id' = 7, ExectionTime = 1\<rparr>]) 5, TaskStarted 0 None,
         TasksFetched 1 (Inr [\<lparr>Id' = 7, ExectionTime = 1\<rparr>]) 6, TaskStarted 1 None]) =
     [LogInfo ''checking for available collection tasks'', GetAvailableTasks,
      LogInfo ''checking for available collection tasks'', GetAvailableTasks,
      LogInfo ''beginning collection task'', StartTask 7, ListAll,
      LogInfo ''beginning collection task'', StartTask 7, ListAll :: string io]"
  by (simp add: start_def init_def at_def executableTasks_def sort_Slice_def insertionSort_def
      gapPass_def)

text \<open>
  C8. When \<open>startTask\<close> returns an error, the goroutine clears \<open>currentTask\<close> and ends: it
  logs the failure and does nothing else (no \<open>listAll\<close>, no ingest, and a later end of job
  cannot concern it); the loop goes on, and the next tick dispatches a new selection.
\<close>

theorem failed_start_abandons_selection:
  assumes "at s i Starting"
  shows "currentTask (step srt (TaskStarted i (Some err)) s) = None \<and>
     goroutines (step srt (TaskStarted i (Some err)) s) = (goroutines s)[i := Finished] \<and>
     trace (step srt (TaskStarted i (Some err)) s) =
       trace s @ [LogErr ''failed to start task, will retry on next heartbeat''] \<and>
     process (step srt (TaskStarted i (Some err)) s) = Alive \<and>
     step srt (JobDone i env batches) (step srt (TaskStarted i (Some err)) s) =
       step srt (TaskStarted i (Some err)) s \<and>
     goroutines (step srt (Tick r) (step srt (TaskStarted i (Some err)) s)) =
       (goroutines s)[i := Finished] @ [Fetching] \<and>
     trace (step srt (Tick r) (step srt (TaskStarted i (Some err)) s)) =
       trace s @
         [LogErr ''failed to start task, will retry on next heartbeat'',
          LogInfo ''checking for available collection tasks'', GetAvailableTasks]"
  using assms by (simp add: at_def finish_def)

theorem failed_start_abandons_selection_witness:
  "currentTask
     (step sort_Slice (TaskStarted 0 (Some ''connection refused''))
        \<lparr>currentTask = Some \<lparr>Id' = 2, ExectionTime = 95\<rparr>, goroutines = [Starting],
          trace = [StartTask 2], process = Alive\<rparr>) = None \<and>
   trace
     (step sort_Slice (Tick None)
        (step sort_Slice (TaskStarted 0 (Some ''connection refused''))
           \<lparr>currentTask = Some \<lparr>Id' = 2, ExectionTime = 95\<rparr>, goroutines = [Starting],
             trace = [StartTask 2], process = Alive\<rparr>)) =
     [StartTask 2, LogErr ''failed to start task, will retry on next heartbeat'',
      LogInfo ''checking for available collection tasks'', GetAvailableTasks :: string io]"
proof -
  let ?s = "\<lparr>currentTask = Some \<lparr>Id' = 2, ExectionTime = 95\<rparr>, goroutines = [Starting],
          trace = [StartTask 2], process = Alive\<rparr> :: string scheduler"
  have a: "at ?s 0 Starting"
    by (simp add: at_def)
  show ?thesis
    using failed_start_abandons_selection
      [OF a, of sort_Slice "''connection refused''"
        "\<lparr>NewRequest = (\<lambda>data. True), Do = (\<lambda>n. TransportError)\<rparr>" "[]" None]
    by (simp add: at_def finish_def)
qed

text \<open>
  C9 (evaluation). Two goroutines were dispatched before the first answer to
  \<open>getAvailableTasks\<close>, and both run a job. The first job ends and clears \<open>currentTask\<close>.
  When \<open>endTask\<close> then returns without error for the second job, the log line reads
  \<open>currentTask.Id\<close> of a nil \<open>currentTask\<close>: the process panics, the second goroutine
  never finishes, and the next tick dispatches no selection. So the end of a job does not in
  every case bring the service back to idle.
\<close>

theorem job_end_after_overlap_panics:
  "process
     (start sort_Slice
        [Tick None, Tick None,
         TasksFetched 0 (Inr [\<lparr>Id' = 7, ExectionTime = 1\<rparr>]) 5, TaskStarted 0 None,
         TasksFetched 1 (Inr [\<lparr>Id' = 7, ExectionTime = 1\<rparr>]) 6, TaskStarted 1 None,
         JobDone 0 \<lparr>NewRequest = (\<lambda>data. True), Do = (\<lambda>n. StatusCode StatusAccepted)\<rparr> [],
         TaskEnded 0 None,
         JobDone 1 \<lparr>NewRequest = (\<lambda>data. True), Do = (\<lambda>n. StatusCode StatusAccepted)\<rparr> [],
         TaskEnded 1 None]) = Panicked \<and>
   goroutines
     (start sort_Slice
        [Tick None, Tick None,
         TasksFetched 0 (Inr [\<lparr>Id' = 7, ExectionTime = 1\<rparr>]) 5, TaskStarted 0 None,
         TasksFetched 1 (Inr [\<lparr>Id' = 7, ExectionTime = 1\<rparr>]) 6, TaskStarted 1 None,
         JobDone 0 \<lparr>NewRequest = (\<lambda>data. True), Do = (\<lambda>n. StatusCode StatusAccepted)\<rparr> [],
         TaskEnded 0 None,
         JobDone 1 \<lparr>NewRequest = (\<lambda>data. True), Do = (\<lambda>n. StatusCode StatusAccepted)\<rparr> [],
         TaskEnded 1 None, Tick None]) =
     [Finished, Reporting ''Collection completed successfully''] \<and>
   trace
     (start sort_Slice
        [Tick None, Tick None,
         TasksFetched 0 (Inr [\<lparr>Id' = 7, ExectionTime = 1\<rparr>]) 5, TaskStarted 0 None,
         TasksFetched 1 (Inr [\<lparr>Id' = 7, ExectionTime = 1\<rparr>]) 6, TaskStarted 1 None,
         JobDone 0 \<lparr>NewRequest = (\<lambda>data. True), Do = (\<lambda>n. StatusCode StatusAccepted)\<rparr> [],
         TaskEnded 0 None,
         JobDone 1 \<lparr>NewRequest = (\<lambda>data. True), Do = (\<lambda>n. StatusCode StatusAccepted)\<rparr> [],
         TaskEnded 1 None, Tick None]) =
     [LogInfo ''checking for available collection tasks'', GetAvailableTasks,
      LogInfo ''checking for available collection tasks'', GetAvailableTasks,
      LogInfo ''beginning collection task'', StartTask 7, ListAll,
      LogInfo ''beginning collection task'', StartTask 7, ListAll,
      Ingest [], EndTask JobStatusComplete ''Collection completed successfully'',
      LogInfo ''Collection completed successfully'',
      Ingest [], EndTask JobStatusComplete ''Collection completed successfully''
      :: string io]"
  by (simp add: start_def init_def at_def finish_def executableTasks_def sort_Slice_def
      insertionSort_def gapPass_def ingest_def completion_message_def)

text \<open>
  C10. Without batches the ingest pass sends nothing and returns \<open>false\<close>; the goroutine then
  reports the end of the task with the message of success.
\<close>

theorem job_without_batches_reported_as_success:
  assumes "at s i Executing"
  shows "ingest env [] = (False, []) \<and>
     trace (step srt (JobDone i env []) s) =
       trace s @ [Ingest [], EndTask JobStatusComplete ''Collection completed successfully'']"
  using assms by (simp add: ingest_def completion_message_def)

theorem job_without_batches_reported_as_success_witness:
  "trace
     (step sort_Slice
        (JobDone 0 \<lparr>NewRequest = (\<lambda>data. True), Do = (\<lambda>n. TransportError)\<rparr> [])
        \<lparr>currentTask = Some \<lparr>Id' = 2, ExectionTime = 95\<rparr>, goroutines = [Executing],
          trace = [StartTask 2, ListAll], process = Alive\<rparr>) =
     [StartTask 2, ListAll, Ingest [],
      EndTask JobStatusComplete ''Collection completed successfully'' :: string io]"
proof -
  let ?s = "\<lparr>currentTask = Some \<lparr>Id' = 2, ExectionTime = 95\<rparr>, goroutines = [Executing],
          trace = [StartTask 2, ListAll], process = Alive\<rparr> :: string scheduler"
  have a: "at ?s 0 Executing"
    by (simp add: at_def)
  show ?thesis
    using job_without_batches_reported_as_success
      [OF a, of "\<lparr>NewRequest = (\<lambda>data. True), Do = (\<lambda>n. TransportError)\<rparr>" sort_Slice]
    by simp
qed

end
